theory Spec2Isabelle
  imports Main
begin

section \<open>Configuration (config.py)\<close>

definition PASSWORD_RESET_SALT :: string where
  "PASSWORD_RESET_SALT = ''password-reset-salt''"

definition PASSWORD_RESET_EXP_SECONDS :: int where
  "PASSWORD_RESET_EXP_SECONDS = 3600"

definition MAX_FAILED_LOGIN :: int where
  "MAX_FAILED_LOGIN = 5"

definition LOCKOUT_SECONDS :: int where
  "LOCKOUT_SECONDS = 15 * 60"

definition USER_ID_PREFIX :: string where
  "USER_ID_PREFIX = ''MINN''"

section \<open>Python built-ins used by utils/auth.py\<close>

text \<open>
  \<open>str(n)\<close> and the format specifications \<open>{n:04d}\<close>, \<open>{n:02d}\<close> for a
  non-negative integer, and \<open>sum(ord(c) for c in s)\<close>. Characters are Isabelle
  characters, so a string of this model holds code points below 256.
\<close>

definition digit_char :: "nat \<Rightarrow> char" where
  "digit_char d = ''0123456789'' ! d"

fun str_nat :: "nat \<Rightarrow> string" where
  "str_nat n = (if n < 10 then [digit_char n] else str_nat (n div 10) @ [digit_char (n mod 10)])"

declare str_nat.simps [simp del]

definition zfill :: "nat \<Rightarrow> string \<Rightarrow> string" where
  "zfill w s = replicate (w - length s) (CHR ''0'') @ s"

definition ord_sum :: "string \<Rightarrow> nat" where
  "ord_sum s = sum_list (map of_char s)"

text \<open>
  Exceptions that can leave \<open>authenticate\<close>: comparing an offset-aware with a naive
  \<open>datetime\<close> raises \<open>TypeError\<close>, and \<open>bcrypt.checkpw\<close> raises \<open>ValueError\<close> on a
  password or a stored hash it refuses.
\<close>

datatype py_error = TypeError | ValueError

text \<open>
  A \<open>datetime\<close> value in microseconds: naive (a wall-clock reading, as \<open>utcnow()\<close>
  returns) or offset-aware.
\<close>

datatype datetime = Naive int | Aware int

text \<open>
  The library functions the module calls and does not define. Every theorem below holds
  for all of them; they are fixed only to run the model on concrete inputs.
  \<^item> \<open>str_upper\<close>, \<open>str_lower\<close>, \<open>isalnum\<close>: \<open>str.upper\<close>, \<open>str.lower\<close>, \<open>str.isalnum\<close>;
  \<^item> \<open>checkpw plain hashed\<close>: \<open>bcrypt.checkpw\<close>, \<open>None\<close> when it raises;
  \<open>hashpw plain salt\<close>: \<open>bcrypt.hashpw\<close>;
  \<^item> \<open>fromisoformat\<close>: \<open>datetime.fromisoformat\<close>, \<open>None\<close> when it raises;
  \<open>isoformat\<close>: \<open>datetime.isoformat\<close> of a naive value;
  \<^item> \<open>naive_timestamp\<close>: \<open>datetime.timestamp\<close> of a naive value, which reads it as local
  time (microseconds in, microseconds out; the float arithmetic is taken as exact);
  \<^item> \<open>mac secret salt payload issued\<close>: the keyed signature of the token serializer.
\<close>

record pylib =
  str_upper :: "string \<Rightarrow> string"
  str_lower :: "string \<Rightarrow> string"
  isalnum :: "char \<Rightarrow> bool"
  checkpw :: "string \<Rightarrow> string \<Rightarrow> bool option"
  hashpw :: "string \<Rightarrow> string \<Rightarrow> string"
  fromisoformat :: "string \<Rightarrow> datetime option"
  isoformat :: "int \<Rightarrow> string"
  naive_timestamp :: "int \<Rightarrow> int"
  mac :: "string \<Rightarrow> string \<Rightarrow> string \<Rightarrow> int \<Rightarrow> string"

section \<open>Data model\<close>

record user =
  user_id :: string
  username :: string
  first_name :: string
  last_name :: string
  email :: string
  country :: string
  organization :: string
  role :: string
  password_hash :: string
  created_at :: string
  failed_logins :: int
  locked_until :: "string option"

text \<open>The entries \<open>append_log\<close> receives, one constructor per event, fields in source order.\<close>

datatype log_entry =
    UserCreated string string string string string string
  | LoginFailedNoUser string string "string option"
  | LoginBlocked string string "string option"
  | LoginSuccess string string string "string option"
  | AccountLocked string string string "string option"
  | LoginFailed string string string int "string option"
  | PasswordReset string string string
  | AccountUnlocked string string

text \<open>
  The persistent state: the \<open>users\<close> list of data/users.json, the \<open>logs\<close> list of
  data/logs.json (both files exist once \<open>ensure_data_files\<close> has run), and the Flask session.
\<close>

record world =
  users_file :: "user list"
  logs_file :: "log_entry list"
  session :: "string \<rightharpoonup> string"

section \<open>Record store (utils/data_loader.py)\<close>

text \<open>
  \<open>json.load\<close> builds new objects on every call. The objects of one request live in a
  heap, a list indexed by reference; \<open>load_users\<close> allocates one object per stored record
  and returns their references, and \<open>save_users\<close> writes the objects that the given
  references point to.
\<close>

type_synonym ref = nat
type_synonym heap = "user list"

definition load_users :: "world \<Rightarrow> heap \<Rightarrow> ref list \<times> heap" where
  "load_users w h = ([length h ..< length h + length (users_file w)], h @ users_file w)"

definition save_users :: "ref list \<Rightarrow> heap \<Rightarrow> world \<Rightarrow> world" where
  "save_users data h w = w\<lparr>users_file := map (\<lambda>r. h ! r) data\<rparr>"

definition append_log :: "log_entry \<Rightarrow> world \<Rightarrow> world" where
  "append_log entry w = w\<lparr>logs_file := logs_file w @ [entry]\<rparr>"

text \<open>What a caller that only reads the records sees of \<open>load_users().get("users", [])\<close>.\<close>

definition loaded_users :: "world \<Rightarrow> user list" where
  "loaded_users w = (let (refs, h) = load_users w [] in map (\<lambda>r. h ! r) refs)"

section \<open>Identity generation\<close>

text \<open>
  The inputs of \<open>generate_user_id\<close> that are not arguments: the date string
  \<open>utcnow().strftime("%y%m%d")\<close>, the value \<open>secrets.randbelow(10000)\<close> returns in the
  k-th iteration of the loop, and \<open>int(time.time())\<close> as read in the k-th iteration.
\<close>

record id_env =
  base_date :: string
  randbelow :: "nat \<Rightarrow> nat"
  unix_time :: "nat \<Rightarrow> nat"

definition id_core :: "id_env \<Rightarrow> string \<Rightarrow> nat \<Rightarrow> string" where
  "id_core env initials k =
     USER_ID_PREFIX @ base_date env @ initials @ zfill 4 (str_nat (randbelow env k))"

definition checksum_id :: "id_env \<Rightarrow> string \<Rightarrow> nat \<Rightarrow> string" where
  "checksum_id env initials k =
     (let core = id_core env initials k;
          checksum = ord_sum core mod 97
      in core @ zfill 2 (str_nat checksum))"

definition fallback_id :: "id_env \<Rightarrow> string \<Rightarrow> nat \<Rightarrow> string" where
  "fallback_id env initials k =
     id_core env initials k @ str_nat (unix_time env k mod 10000)"

definition id_taken :: "user list \<Rightarrow> string \<Rightarrow> bool" where
  "id_taken users uid = list_ex (\<lambda>u. user_id u = uid) users"

text \<open>
  The \<open>while True\<close> loop. \<open>attempt\<close> is the source's counter, which is also the number of
  iterations completed; a run that never returns has the value \<open>None\<close>.
\<close>

partial_function (option) user_id_loop ::
  "id_env \<Rightarrow> user list \<Rightarrow> string \<Rightarrow> nat \<Rightarrow> string option" where
  "user_id_loop env users initials attempt =
     (if \<not> id_taken users (checksum_id env initials attempt)
      then Some (checksum_id env initials attempt)
      else if attempt + 1 > 50
        then (if \<not> id_taken users (fallback_id env initials attempt)
              then Some (fallback_id env initials attempt)
              else user_id_loop env users initials (attempt + 1))
        else user_id_loop env users initials (attempt + 1))"

declare user_id_loop.simps [code]

definition generate_user_id ::
  "pylib \<Rightarrow> id_env \<Rightarrow> world \<Rightarrow> string \<Rightarrow> string \<Rightarrow> string \<Rightarrow> string option" where
  "generate_user_id lib env w fname lname ctry =
     (let users = loaded_users w;
          initials = str_upper lib (take 1 fname @ take 1 lname)
      in user_id_loop env users initials 0)"

text \<open>The \<open>while username in existing\<close> loop of \<open>generate_username\<close>.\<close>

function username_loop :: "string list \<Rightarrow> string \<Rightarrow> string \<Rightarrow> nat \<Rightarrow> string" where
  "username_loop existing base uname suffix =
     (if uname \<in> set existing
      then username_loop existing base (base @ str_nat suffix) (suffix + 1)
      else uname)"
  by pat_completeness auto

definition generate_username ::
  "pylib \<Rightarrow> world \<Rightarrow> string \<Rightarrow> string \<Rightarrow> string \<Rightarrow> string \<Rightarrow> string" where
  "generate_username lib w fname lname ctry org =
     (let users = loaded_users w;
          fn = filter (isalnum lib) (str_lower lib fname);
          ln = filter (isalnum lib) (str_lower lib lname);
          cc = take 3 (filter (isalnum lib) (str_lower lib ctry));
          orgshort = (if org \<noteq> [] then take 3 (filter (isalnum lib) (str_lower lib org)) else []);
          base = fn @ ''.'' @ ln @ ''.'' @ cc @ (if orgshort \<noteq> [] then ''.'' @ orgshort else []);
          existing = map username users
      in username_loop existing base base 1)"

section \<open>Password helpers\<close>

text \<open>\<open>hash_password\<close> draws its salt from \<open>bcrypt.gensalt()\<close>; the salt is an input here.\<close>

definition hash_password :: "pylib \<Rightarrow> string \<Rightarrow> string \<Rightarrow> string" where
  "hash_password lib salt plain = hashpw lib plain salt"

definition check_password :: "pylib \<Rightarrow> string \<Rightarrow> string \<Rightarrow> bool option" where
  "check_password lib plain hashed = checkpw lib plain hashed"

section \<open>User management\<close>

text \<open>
  The inputs of \<open>create_user\<close> that are not arguments: those of \<open>generate_user_id\<close>, the
  bcrypt salt, and the clock reading behind \<open>created_at\<close>.
\<close>

record create_env =
  ids :: id_env
  salt :: string
  created_now :: int

text \<open>\<open>None\<close>: \<open>generate_user_id\<close> never returned, so neither does \<open>create_user\<close>.\<close>

definition create_user ::
  "pylib \<Rightarrow> create_env \<Rightarrow> string \<Rightarrow> string \<Rightarrow> string \<Rightarrow> string \<Rightarrow> string \<Rightarrow> string \<Rightarrow> string
     \<Rightarrow> world \<Rightarrow> (user \<times> world) option" where
  "create_user lib env fname lname mail ctry org rl password w =
     (let (data, h1) = load_users w []
      in case generate_user_id lib (ids env) w fname lname ctry of
           None \<Rightarrow> None
         | Some uid \<Rightarrow>
            (let uname = generate_username lib w fname lname ctry org;
                 pw_hash = hash_password lib (salt env) password;
                 created = isoformat lib (created_now env) @ ''Z'';
                 new_user = \<lparr>user_id = uid, username = uname, first_name = fname,
                   last_name = lname, email = mail, country = ctry, organization = org,
                   role = rl, password_hash = pw_hash, created_at = created,
                   failed_logins = 0, locked_until = None\<rparr>;
                 h2 = h1 @ [new_user];
                 data' = data @ [length h1];
                 w1 = save_users data' h2 w;
                 w2 = append_log (UserCreated created uid uname rl mail ctry) w1
             in Some (h2 ! length h1, w2)))"

text \<open>
  \<open>find_user_by_username\<close> calls \<open>load_users()\<close> itself: the object it returns belongs to
  the list it has just loaded.
\<close>

definition find_user_by_username :: "world \<Rightarrow> string \<Rightarrow> heap \<Rightarrow> ref option \<times> heap" where
  "find_user_by_username w uname h =
     (let (users, h') = load_users w h
      in (find (\<lambda>u. username (h' ! u) = uname) users, h'))"

definition find_user_by_email :: "pylib \<Rightarrow> world \<Rightarrow> string \<Rightarrow> user option" where
  "find_user_by_email lib w mail =
     find (\<lambda>u. str_lower lib (email u) = str_lower lib mail) (loaded_users w)"

section \<open>Authentication and lockout\<close>

text \<open>
  The three readings of \<open>datetime.utcnow()\<close> that \<open>authenticate\<close> makes: for the log
  timestamp, for the comparison with \<open>locked_until\<close>, and for the new lock.
\<close>

record auth_env =
  now_entry :: int
  now_check :: int
  now_lock :: int

text \<open>
  The block under \<open># check lockout\<close>. \<open>Inr (Some s)\<close>: the account is locked and \<open>s\<close> is
  the stored string; \<open>Inr None\<close>: evaluation goes on to the password check.
\<close>

definition check_lockout :: "pylib \<Rightarrow> auth_env \<Rightarrow> string option \<Rightarrow> py_error + string option" where
  "check_lockout lib env stored =
     (case stored of
        None \<Rightarrow> Inr None
      | Some s \<Rightarrow>
          if s = [] then Inr None
          else (case fromisoformat lib (filter (\<lambda>c. c \<noteq> CHR ''Z'') s) of
                  None \<Rightarrow> Inr None
                | Some (Aware t) \<Rightarrow> Inl TypeError
                | Some (Naive locked_ts) \<Rightarrow>
                    if locked_ts > now_check env then Inr (Some s) else Inr None))"

definition authenticate ::
  "pylib \<Rightarrow> auth_env \<Rightarrow> string \<Rightarrow> string \<Rightarrow> string option \<Rightarrow> world
     \<Rightarrow> (py_error + bool \<times> string) \<times> world" where
  "authenticate lib env uname password remote_ip w =
     (let (data, h1) = load_users w [];
          (found, h2) = find_user_by_username w uname h1;
          now = isoformat lib (now_entry env) @ ''Z''
      in case found of
           None \<Rightarrow>
             (Inr (False, ''Invalid credentials.''),
              append_log (LoginFailedNoUser now uname remote_ip) w)
         | Some u \<Rightarrow>
            (case check_lockout lib env (locked_until (h2 ! u)) of
               Inl e \<Rightarrow> (Inl e, w)
             | Inr (Some s) \<Rightarrow>
                 (Inr (False, ''Account locked until '' @ s @ '' UTC.''),
                  append_log (LoginBlocked now (user_id (h2 ! u)) remote_ip) w)
             | Inr None \<Rightarrow>
                (case check_password lib password (password_hash (h2 ! u)) of
                   None \<Rightarrow> (Inl ValueError, w)
                 | Some True \<Rightarrow>
                    (let h3 = h2[u := (h2 ! u)\<lparr>failed_logins := 0\<rparr>];
                         h4 = h3[u := (h3 ! u)\<lparr>locked_until := None\<rparr>];
                         w1 = save_users data h4 w;
                         w2 = w1\<lparr>session := (session w1)
                                (''username'' \<mapsto> username (h4 ! u),
                                 ''role'' \<mapsto> role (h4 ! u),
                                 ''user_id'' \<mapsto> user_id (h4 ! u))\<rparr>;
                         w3 = append_log
                                (LoginSuccess now (user_id (h4 ! u)) (username (h4 ! u)) remote_ip) w2
                     in (Inr (True, ''Authenticated''), w3))
                 | Some False \<Rightarrow>
                    (let h3 = h2[u := (h2 ! u)\<lparr>failed_logins := failed_logins (h2 ! u) + 1\<rparr>]
                     in if failed_logins (h3 ! u) \<ge> MAX_FAILED_LOGIN
                        then
                          (let lock_until =
                                 naive_timestamp lib (now_lock env) + LOCKOUT_SECONDS * 1000000;
                               lock_str = isoformat lib lock_until @ ''Z'';
                               h4 = h3[u := (h3 ! u)\<lparr>locked_until := Some lock_str\<rparr>];
                               w1 = append_log
                                      (AccountLocked now (user_id (h4 ! u)) (username (h4 ! u)) remote_ip) w;
                               w2 = save_users data h4 w1
                           in (Inr (False,
                                 ''Too many failed attempts. Account locked until '' @ lock_str @ '' UTC.''),
                               w2))
                        else
                          (let w1 = append_log
                                      (LoginFailed now (user_id (h3 ! u)) (username (h3 ! u))
                                         (failed_logins (h3 ! u)) remote_ip) w;
                               w2 = save_users data h3 w1
                           in (Inr (False, ''Invalid credentials.''), w2))))))"

section \<open>Password reset tokens\<close>

text \<open>
  Modelled from the spec: the signed, timestamped serializer behind \<open>s.dumps\<close> and
  \<open>s.loads\<close> (\<open>itsdangerous.URLSafeTimedSerializer\<close>, an imported library that is not part
  of the sources). The spec describes a token as a signed, self-contained capsule encoding
  the email and the issuance time, valid only if the signature matches and the age is at most
  the expiry window. A token is held here in decoded form; times are in seconds.
\<close>

record token =
  payload :: string
  issued :: int
  signature :: string

datatype loads_result = Loaded string | SignatureExpired | BadSignature

definition dumps :: "pylib \<Rightarrow> string \<Rightarrow> int \<Rightarrow> string \<Rightarrow> string \<Rightarrow> token" where
  "dumps lib secret now obj slt =
     \<lparr>payload = obj, issued = now, signature = mac lib secret slt obj now\<rparr>"

definition loads :: "pylib \<Rightarrow> string \<Rightarrow> int \<Rightarrow> token \<Rightarrow> string \<Rightarrow> int \<Rightarrow> loads_result" where
  "loads lib secret now tok slt max_age =
     (if signature tok \<noteq> mac lib secret slt (payload tok) (issued tok) then BadSignature
      else if now - issued tok > max_age then SignatureExpired
      else Loaded (payload tok))"

text \<open>The two functions of utils/auth.py; \<open>secret\<close> is \<open>config.SECRET_KEY\<close>.\<close>

definition generate_reset_token :: "pylib \<Rightarrow> string \<Rightarrow> int \<Rightarrow> string \<Rightarrow> token" where
  "generate_reset_token lib secret now mail = dumps lib secret now mail PASSWORD_RESET_SALT"

definition verify_reset_token ::
  "pylib \<Rightarrow> string \<Rightarrow> int \<Rightarrow> token \<Rightarrow> int option \<Rightarrow> string option" where
  "verify_reset_token lib secret now tok max_age =
     (let max_age' = (case max_age of None \<Rightarrow> PASSWORD_RESET_EXP_SECONDS | Some m \<Rightarrow> m)
      in case loads lib secret now tok PASSWORD_RESET_SALT max_age' of
           Loaded mail \<Rightarrow> Some mail
         | SignatureExpired \<Rightarrow> None
         | BadSignature \<Rightarrow> None)"

section \<open>Password reset and administrative unlock\<close>

text \<open>
  Both iterate over the list they loaded themselves, so the object they change is one
  of those \<open>save_users\<close> writes.
\<close>

definition reset_password ::
  "pylib \<Rightarrow> string \<Rightarrow> int \<Rightarrow> string \<Rightarrow> string \<Rightarrow> world \<Rightarrow> bool \<times> world" where
  "reset_password lib slt now mail new_password w =
     (let (data, h1) = load_users w []
      in case find (\<lambda>u. str_lower lib (email (h1 ! u)) = str_lower lib mail) data of
           None \<Rightarrow> (False, w)
         | Some u \<Rightarrow>
            (let h2 = h1[u := (h1 ! u)\<lparr>password_hash := hash_password lib slt new_password\<rparr>];
                 h3 = h2[u := (h2 ! u)\<lparr>failed_logins := 0\<rparr>];
                 h4 = h3[u := (h3 ! u)\<lparr>locked_until := None\<rparr>];
                 w1 = save_users data h4 w;
                 w2 = append_log
                        (PasswordReset (isoformat lib now @ ''Z'') (user_id (h4 ! u)) (username (h4 ! u))) w1
             in (True, w2)))"

definition unlock_account :: "pylib \<Rightarrow> int \<Rightarrow> string \<Rightarrow> world \<Rightarrow> bool \<times> world" where
  "unlock_account lib now uid w =
     (let (data, h1) = load_users w []
      in case find (\<lambda>u. user_id (h1 ! u) = uid) data of
           None \<Rightarrow> (False, w)
         | Some u \<Rightarrow>
            (let h2 = h1[u := (h1 ! u)\<lparr>failed_logins := 0\<rparr>];
                 h3 = h2[u := (h2 ! u)\<lparr>locked_until := None\<rparr>];
                 w1 = save_users data h3 w;
                 w2 = append_log (AccountUnlocked (isoformat lib now @ ''Z'') uid) w1
             in (True, w2)))"

section \<open>Sequences of creations and the store invariants\<close>

text \<open>
  A sequence of \<open>create_user\<close> calls, each with its own arguments and inputs; the run has
  no result when one of the calls never returns.
\<close>

record creation =
  c_env :: create_env
  c_first :: string
  c_last :: string
  c_email :: string
  c_country :: string
  c_org :: string
  c_role :: string
  c_password :: string

fun create_users :: "pylib \<Rightarrow> creation list \<Rightarrow> world \<Rightarrow> world option" where
  "create_users lib [] w = Some w"
| "create_users lib (c # cs) w =
     (case create_user lib (c_env c) (c_first c) (c_last c) (c_email c) (c_country c) (c_org c)
             (c_role c) (c_password c) w of
        None \<Rightarrow> None
      | Some (u, w') \<Rightarrow> create_users lib cs w')"

text \<open>
  The check that \<open>signup\<close> (app.py) makes before it calls \<open>create_user\<close>, along a run:
  \<open>find_user_by_email\<close> finds nobody with the new address.
\<close>

fun emails_checked :: "pylib \<Rightarrow> creation list \<Rightarrow> world \<Rightarrow> bool" where
  "emails_checked lib [] w = True"
| "emails_checked lib (c # cs) w =
     (find_user_by_email lib w (c_email c) = None \<and>
      (case create_user lib (c_env c) (c_first c) (c_last c) (c_email c) (c_country c) (c_org c)
             (c_role c) (c_password c) w of
         None \<Rightarrow> True
       | Some (u, w') \<Rightarrow> emails_checked lib cs w'))"

text \<open>
  The invariant of the data model: \<open>user_id\<close> and \<open>username\<close> are unique, and \<open>email\<close>
  is unique when compared as \<open>find_user_by_email\<close> compares it.
\<close>

definition unique_ids :: "world \<Rightarrow> bool" where
  "unique_ids w = distinct (map user_id (users_file w))"

definition unique_usernames :: "world \<Rightarrow> bool" where
  "unique_usernames w = distinct (map username (users_file w))"

definition unique_emails :: "pylib \<Rightarrow> world \<Rightarrow> bool" where
  "unique_emails lib w = distinct (map (\<lambda>u. str_lower lib (email u)) (users_file w))"

section \<open>Properties in the words of the specification\<close>

text \<open>
  The trailing two characters of an identifier are the zero-padded decimal value of the sum
  of the character codes of the preceding string, modulo 97.
\<close>

definition has_checksum :: "string \<Rightarrow> bool" where
  "has_checksum uid =
     (2 \<le> length uid \<and>
      drop (length uid - 2) uid = zfill 2 (str_nat (ord_sum (take (length uid - 2) uid) mod 97)))"

text \<open>
  The store in which every record named \<open>uname\<close> has no lock: the Active state that an
  unreadable \<open>locked_until\<close> is compared with.
\<close>

definition unlocked_copy :: "string \<Rightarrow> world \<Rightarrow> world" where
  "unlocked_copy uname w =
     w\<lparr>users_file :=
         map (\<lambda>u. if username u = uname then u\<lparr>locked_until := None\<rparr> else u) (users_file w)\<rparr>"

text \<open>
  The age limit \<open>verify_reset_token\<close> applies: the argument, or the configured default.
\<close>

definition age_limit :: "int option \<Rightarrow> int" where
  "age_limit max_age = (case max_age of None \<Rightarrow> PASSWORD_RESET_EXP_SECONDS | Some m \<Rightarrow> m)"

section \<open>Concrete inputs\<close>

text \<open>
  An instance of the library on ASCII text, for running the model: case mapping and
  \<open>isalnum\<close> on ASCII letters and digits, a password hash that \<open>checkpw\<close> can read only
  behind the prefix \<open>$2b$\<close>, the ISO format of four instants of 15 July 2025 (in
  microseconds since the epoch) with its parser, which also knows one offset-aware string,
  and a server clock in UTC.
\<close>

definition ascii_upper :: "char \<Rightarrow> char" where
  "ascii_upper c =
     (case map_of (zip ''abcdefghijklmnopqrstuvwxyz'' ''ABCDEFGHIJKLMNOPQRSTUVWXYZ'') c of
        Some C \<Rightarrow> C | None \<Rightarrow> c)"

definition ascii_lower :: "char \<Rightarrow> char" where
  "ascii_lower c =
     (case map_of (zip ''ABCDEFGHIJKLMNOPQRSTUVWXYZ'' ''abcdefghijklmnopqrstuvwxyz'') c of
        Some C \<Rightarrow> C | None \<Rightarrow> c)"

definition ascii_alnum :: "char \<Rightarrow> bool" where
  "ascii_alnum c \<longleftrightarrow>
     c \<in> set ''abcdefghijklmnopqrstuvwxyzABCDEFGHIJKLMNOPQRSTUVWXYZ0123456789''"

definition at_0900 :: int where "at_0900 = 1752570000000000"
definition at_1000 :: int where "at_1000 = 1752573600000000"
definition at_1001 :: int where "at_1001 = 1752573660000000"
definition at_1015 :: int where "at_1015 = 1752574500000000"

definition iso_table :: "(int \<times> string) list" where
  "iso_table =
     [(at_0900, ''2025-07-15T09:00:00''), (at_1000, ''2025-07-15T10:00:00''),
      (at_1001, ''2025-07-15T10:01:00''), (at_1015, ''2025-07-15T10:15:00'')]"

definition ascii_lib :: pylib where
  "ascii_lib =
     \<lparr>str_upper = map ascii_upper,
      str_lower = map ascii_lower,
      isalnum = ascii_alnum,
      checkpw = (\<lambda>plain hashed.
        if take 4 hashed = ''$2b$'' then Some (drop 4 hashed = plain) else None),
      hashpw = (\<lambda>plain salt. ''$2b$'' @ plain),
      fromisoformat = (\<lambda>s.
        if s = ''2025-07-15T09:00:00+00:00'' then Some (Aware at_0900)
        else map_option Naive (map_of (map (\<lambda>(t, s). (s, t)) iso_table) s)),
      isoformat = (\<lambda>t. case map_of iso_table t of Some s \<Rightarrow> s | None \<Rightarrow> []),
      naive_timestamp = (\<lambda>t. t),
      mac = (\<lambda>secret slt obj t. secret @ ''/'' @ slt @ ''/'' @ obj @ ''/'' @ str_nat (nat t))\<rparr>"

text \<open>
  Stored records, stores, clock readings and generator inputs. \<open>env_repeat\<close> draws 4829 every
  time and reads one clock value; \<open>env_clock\<close> draws 4829 every time while the clock advances.
  \<open>w_taken\<close> holds the checksum identifier of that draw; \<open>w_full\<close> holds it together with
  the 10000 identifiers the fallback can build from it.
\<close>

definition stored_user :: "string \<Rightarrow> string \<Rightarrow> string \<Rightarrow> int \<Rightarrow> string option \<Rightarrow> user" where
  "stored_user uid uname mail fails locked =
     \<lparr>user_id = uid, username = uname, first_name = ''Ada'', last_name = ''Byron'',
      email = mail, country = ''SouthAfrica'', organization = ''MINN'', role = ''Researcher'',
      password_hash = ''$2b$Secret1!'', created_at = ''2025-07-15T09:00:00Z'',
      failed_logins = fails, locked_until = locked\<rparr>"

definition store_of :: "user list \<Rightarrow> world" where
  "store_of us = \<lparr>users_file = us, logs_file = [], session = Map.empty\<rparr>"

definition ada :: "int \<Rightarrow> string option \<Rightarrow> user" where
  "ada fails locked =
     stored_user ''MINN250715AB482987'' ''ada.byron.sou.min'' ''ada@example.com'' fails locked"

definition env_at :: "int \<Rightarrow> auth_env" where
  "env_at t = \<lparr>now_entry = t, now_check = t, now_lock = t\<rparr>"

definition env_repeat :: id_env where
  "env_repeat = \<lparr>base_date = ''250715'', randbelow = (\<lambda>k. 4829), unix_time = (\<lambda>k. 1752577890)\<rparr>"

definition env_clock :: id_env where
  "env_clock = \<lparr>base_date = ''250715'', randbelow = (\<lambda>k. 4829), unix_time = (\<lambda>k. 1752577890 + k)\<rparr>"

definition w_taken :: world where
  "w_taken = store_of
     [stored_user ''MINN250715AB482987'' ''ada.byron.sou.min'' ''ada@example.com'' 0 None]"

definition w_full :: world where
  "w_full = store_of
     (stored_user ''MINN250715AB482987'' ''ada.byron.sou.min'' ''ada@example.com'' 0 None #
      map (\<lambda>t. stored_user (''MINN250715AB4829'' @ str_nat t) (''user'' @ str_nat t)
                 (str_nat t @ ''@example.com'') 0 None) [0..<10000])"

text \<open>
  The same library with the length limit of \<open>bcrypt\<close> 5, whose \<open>checkpw\<close> raises
  \<open>ValueError\<close> on a password of more than 72 bytes, and a password of 73 characters.
\<close>

definition bcrypt72_lib :: pylib where
  "bcrypt72_lib =
     ascii_lib\<lparr>checkpw := (\<lambda>plain hashed.
        if length plain > 72 then None else checkpw ascii_lib plain hashed)\<rparr>"

definition long_password :: string where
  "long_password = replicate 73 (CHR ''a'')"

definition creation_of :: "nat \<Rightarrow> string \<Rightarrow> string \<Rightarrow> string \<Rightarrow> creation" where
  "creation_of draw fname lname mail =
     \<lparr>c_env = \<lparr>ids = \<lparr>base_date = ''250715'', randbelow = (\<lambda>k. draw),
                        unix_time = (\<lambda>k. 1752577890)\<rparr>,
               salt = ''salt'', created_now = at_0900\<rparr>,
      c_first = fname, c_last = lname, c_email = mail, c_country = ''SouthAfrica'',
      c_org = ''MINN'', c_role = ''Researcher'', c_password = ''Secret1!''\<rparr>"

section \<open>Decimal strings\<close>

lemma lt10_cases: "d < (10::nat) \<Longrightarrow> d = 0 \<or> d = 1 \<or> d = 2 \<or> d = 3 \<or> d = 4 \<or> d = 5 \<or> d = 6 \<or> d = 7 \<or> d = 8 \<or> d = 9"
  by arith

lemma of_char_digit_char: "d < 10 \<Longrightarrow> of_char (digit_char d) = (48::nat) + d"
  using lt10_cases [of d] by (auto simp: digit_char_def)

lemma digit_char_inj: "d < 10 \<Longrightarrow> e < 10 \<Longrightarrow> digit_char d = digit_char e \<Longrightarrow> d = e"
proof -
  assume d: "d < 10" and e: "e < 10" and eq: "digit_char d = digit_char e"
  from eq have "(of_char (digit_char d) :: nat) = of_char (digit_char e)"
    by (rule arg_cong)
  then have "48 + d = 48 + e"
    by (simp only: of_char_digit_char [OF d] of_char_digit_char [OF e])
  then show ?thesis by arith
qed

lemma str_nat_nonempty: "str_nat n \<noteq> []"
  by (subst str_nat.simps) simp

lemma str_nat_digit: "n < 10 \<Longrightarrow> str_nat n = [digit_char n]"
  by (subst str_nat.simps) simp

lemma str_nat_length1: "length (str_nat n) = 1 \<longleftrightarrow> n < 10"
  by (subst str_nat.simps) (simp add: str_nat_nonempty)

lemma str_nat_length_le2: "n < 100 \<Longrightarrow> length (str_nat n) \<le> 2"
proof (cases "n < 10")
  case True
  then show ?thesis by (simp add: str_nat_digit)
next
  case False
  assume "n < 100"
  then have "n div 10 < 10" by simp
  with False show ?thesis
    by (subst str_nat.simps) (simp add: str_nat_digit)
qed

lemma length_zfill2: "n < 100 \<Longrightarrow> length (zfill 2 (str_nat n)) = 2"
  using str_nat_length_le2 [of n] by (simp add: zfill_def)

lemma str_nat_inj: "str_nat n = str_nat m \<Longrightarrow> n = m"
proof (induction n arbitrary: m rule: str_nat.induct)
  case (1 n)
  show ?case
  proof (cases "n < 10")
    case True
    with "1.prems" have m: "m < 10"
      using str_nat_length1 [of n] str_nat_length1 [of m] by simp
    from True m "1.prems" have "digit_char n = digit_char m"
      by (simp add: str_nat.simps [of n] str_nat.simps [of m])
    with True m show ?thesis by (rule digit_char_inj)
  next
    case False
    with "1.prems" have m: "\<not> m < 10"
      using str_nat_length1 [of n] str_nat_length1 [of m] by simp
    from False m "1.prems" have eq: "str_nat (n div 10) = str_nat (m div 10)"
      and dg: "digit_char (n mod 10) = digit_char (m mod 10)"
      by (simp_all add: str_nat.simps [of n] str_nat.simps [of m])
    from "1.IH" [OF False eq] have "n div 10 = m div 10" .
    moreover from dg have "n mod 10 = m mod 10"
      by (intro digit_char_inj) simp_all
    ultimately show ?thesis
      by (metis div_mult_mod_eq)
  qed
qed

section \<open>Termination of the username loop\<close>

text \<open>
  Each iteration that goes on either consumes a stored name of the form \<open>base\<close> followed by a
  number not yet tried, or is the last one.
\<close>

lemma finite_suffixes: "finite {k. P k \<and> base @ str_nat k \<in> set existing}"
proof -
  have "inj (\<lambda>k. base @ str_nat k)"
    by (rule injI) (simp add: str_nat_inj)
  then have "finite ((\<lambda>k. base @ str_nat k) -` set existing)"
    by (intro finite_vimageI) simp_all
  then show ?thesis
    by (rule rev_finite_subset) auto
qed

termination username_loop
proof (relation "measure (\<lambda>(existing, base, uname, suffix).
    2 * card {k. suffix \<le> k \<and> base @ str_nat k \<in> set existing}
      + (if uname \<in> set existing then 1 else 0))", goal_cases)
  case 1
  show ?case by simp
next
  case (2 existing base uname suffix)
  let ?A = "{k. suffix \<le> k \<and> base @ str_nat k \<in> set existing}"
  let ?B = "{k. suffix + 1 \<le> k \<and> base @ str_nat k \<in> set existing}"
  have fin: "finite ?A" by (rule finite_suffixes)
  show ?case
  proof (cases "base @ str_nat suffix \<in> set existing")
    case True
    then have "suffix \<in> ?A" and "suffix \<notin> ?B" by simp_all
    moreover have "?B \<subseteq> ?A" by auto
    ultimately have "?B \<subset> ?A" by blast
    with fin have "card ?B < card ?A" by (rule psubset_card_mono)
    with 2 True show ?thesis by simp
  next
    case False
    have "?B \<subseteq> ?A" by auto
    with fin have "card ?B \<le> card ?A" by (rule card_mono)
    with 2 False show ?thesis by simp
  qed
qed

declare username_loop.simps [simp del]

lemma username_loop_fresh: "username_loop existing base uname suffix \<notin> set existing"
  by (induction existing base uname suffix rule: username_loop.induct)
    (subst username_loop.simps, simp)

section \<open>The user-id loop\<close>

lemma loaded_users_eq [simp]: "loaded_users w = users_file w"
  by (simp add: loaded_users_def load_users_def map_nth)

lemma id_taken_iff: "id_taken users uid \<longleftrightarrow> uid \<in> user_id ` set users"
  by (auto simp: id_taken_def list_ex_iff)

lemma has_checksum_checksum_id: "has_checksum (checksum_id env initials k)"
proof -
  let ?core = "id_core env initials k"
  let ?cs = "zfill 2 (str_nat (ord_sum ?core mod 97))"
  have len: "length ?cs = 2" by (rule length_zfill2) simp
  then show ?thesis
    by (simp add: has_checksum_def checksum_id_def Let_def)
qed

lemma user_id_loop_result:
  assumes "user_id_loop env users initials a = Some uid"
  shows "\<not> id_taken users uid \<and>
         ((\<exists>k\<ge>a. uid = checksum_id env initials k) \<or>
          (\<exists>k\<ge>a. 50 \<le> k \<and> uid = fallback_id env initials k))"
proof (rule user_id_loop.raw_induct [where P = "\<lambda>env users initials a uid.
         \<not> id_taken users uid \<and>
         ((\<exists>k\<ge>a. uid = checksum_id env initials k) \<or>
          (\<exists>k\<ge>a. 50 \<le> k \<and> uid = fallback_id env initials k))", OF _ assms], goal_cases)
  case (1 loop env users initials attempt uid)
  show ?case
  proof (cases "id_taken users (checksum_id env initials attempt)")
    case False
    with "1"(2) have "uid = checksum_id env initials attempt" by simp
    with False show ?thesis by auto
  next
    case taken: True
    show ?thesis
    proof (cases "attempt + 1 > 50 \<and> \<not> id_taken users (fallback_id env initials attempt)")
      case True
      with taken "1"(2) have "uid = fallback_id env initials attempt" by simp
      with True show ?thesis by auto
    next
      case False
      with taken "1"(2) have "loop env users initials (attempt + 1) = Some uid"
        by (auto split: if_splits)
      from "1"(1) [OF this] have nt: "\<not> id_taken users uid"
        and d: "(\<exists>k\<ge>attempt + 1. uid = checksum_id env initials k) \<or>
          (\<exists>k\<ge>attempt + 1. 50 \<le> k \<and> uid = fallback_id env initials k)"
        by simp_all
      from d show ?thesis
      proof
        assume "\<exists>k\<ge>attempt + 1. uid = checksum_id env initials k"
        then obtain k where k: "attempt + 1 \<le> k" "uid = checksum_id env initials k" by blast
        then have "attempt \<le> k" by simp
        with nt k show ?thesis by blast
      next
        assume "\<exists>k\<ge>attempt + 1. 50 \<le> k \<and> uid = fallback_id env initials k"
        then obtain k where k: "attempt + 1 \<le> k" "50 \<le> k" "uid = fallback_id env initials k"
          by blast
        then have "attempt \<le> k" by simp
        with nt k show ?thesis by blast
      qed
    qed
  qed
qed

lemma user_id_loop_returns:
  assumes "a \<le> 50"
    and "(\<exists>k. a \<le> k \<and> k \<le> 50 \<and> \<not> id_taken users (checksum_id env initials k)) \<or>
         \<not> id_taken users (fallback_id env initials 50)"
  shows "\<exists>uid. user_id_loop env users initials a = Some uid \<and>
           ((\<exists>k. a \<le> k \<and> k \<le> 50 \<and> uid = checksum_id env initials k) \<or>
            uid = fallback_id env initials 50)"
  using assms
proof (induction "50 - a" arbitrary: a)
  case 0
  from "0.hyps" "0.prems"(1) have a: "a = 50" by simp
  show ?case
  proof (cases "id_taken users (checksum_id env initials 50)")
    case False
    then have "user_id_loop env users initials 50 = Some (checksum_id env initials 50)"
      by (subst user_id_loop.simps) simp
    with a show ?thesis by auto
  next
    case True
    have "k = 50" if "a \<le> k" "k \<le> 50" for k
      using that a by simp
    with True "0.prems"(2) have free: "\<not> id_taken users (fallback_id env initials 50)"
      by blast
    with True have "user_id_loop env users initials 50 = Some (fallback_id env initials 50)"
      by (subst user_id_loop.simps) simp
    with a show ?thesis by simp
  qed
next
  case (Suc n)
  from Suc.hyps(2) have a: "a < 50" by simp
  show ?case
  proof (cases "id_taken users (checksum_id env initials a)")
    case False
    then have "user_id_loop env users initials a = Some (checksum_id env initials a)"
      by (subst user_id_loop.simps) simp
    with a show ?thesis by auto
  next
    case True
    with a have step: "user_id_loop env users initials a = user_id_loop env users initials (a + 1)"
      by (subst user_id_loop.simps) simp
    from Suc.hyps(2) have n: "n = 50 - (a + 1)" by simp
    from a have le: "a + 1 \<le> 50" by simp
    have hyp: "(\<exists>k. a + 1 \<le> k \<and> k \<le> 50 \<and> \<not> id_taken users (checksum_id env initials k)) \<or>
         \<not> id_taken users (fallback_id env initials 50)"
    proof (cases "id_taken users (fallback_id env initials 50)")
      case False
      then show ?thesis by simp
    next
      case fb: True
      with Suc.prems(2) obtain k where k: "a \<le> k" "k \<le> 50"
        "\<not> id_taken users (checksum_id env initials k)" by blast
      with True have "k \<noteq> a" by auto
      with k have "a + 1 \<le> k" by simp
      with k show ?thesis by blast
    qed
    from Suc.hyps(1) [OF n le hyp] obtain uid where
      r: "user_id_loop env users initials (a + 1) = Some uid"
      and s: "(\<exists>k. a + 1 \<le> k \<and> k \<le> 50 \<and> uid = checksum_id env initials k) \<or>
            uid = fallback_id env initials 50" by blast
    from s have "(\<exists>k. a \<le> k \<and> k \<le> 50 \<and> uid = checksum_id env initials k) \<or>
            uid = fallback_id env initials 50"
    proof
      assume "\<exists>k. a + 1 \<le> k \<and> k \<le> 50 \<and> uid = checksum_id env initials k"
      then obtain k where k: "a + 1 \<le> k" "k \<le> 50" "uid = checksum_id env initials k" by blast
      then have "a \<le> k" by simp
      with k show ?thesis by blast
    qed simp
    with step r show ?thesis by simp
  qed
qed

lemma user_id_loop_diverges:
  assumes "\<And>k. id_taken users (checksum_id env initials k)"
    and "\<And>k. id_taken users (fallback_id env initials k)"
  shows "user_id_loop env users initials a = None"
proof (cases "user_id_loop env users initials a")
  case None
  then show ?thesis .
next
  case (Some uid)
  from user_id_loop_result [OF Some] assms show ?thesis by blast
qed

lemma generate_user_id_first_try:
  assumes "\<not> id_taken (users_file w) (checksum_id env (str_upper lib (take 1 fname @ take 1 lname)) 0)"
  shows "generate_user_id lib env w fname lname ctry
           = Some (checksum_id env (str_upper lib (take 1 fname @ take 1 lname)) 0)"
  using assms by (simp add: generate_user_id_def Let_def) (subst user_id_loop.simps, simp)

lemma generate_user_id_fresh:
  assumes "generate_user_id lib env w fname lname ctry = Some uid"
  shows "uid \<notin> user_id ` set (users_file w)"
  using assms user_id_loop_result [of env "users_file w" _ 0 uid]
  by (auto simp: generate_user_id_def id_taken_iff)

lemma generate_username_fresh:
  "generate_username lib w fname lname ctry org \<notin> username ` set (users_file w)"
  using username_loop_fresh [where existing = "map username (users_file w)"]
  by (simp add: generate_username_def Let_def)

section \<open>Creating users\<close>

lemma create_user_returns:
  assumes "generate_user_id lib (ids env) w fname lname ctry = Some uid"
  shows "\<exists>u w'. create_user lib env fname lname mail ctry org rl password w = Some (u, w')
           \<and> user_id u = uid"
  using assms by (simp add: create_user_def load_users_def Let_def)

lemma create_user_result:
  assumes "create_user lib env fname lname mail ctry org rl password w = Some (u, w')"
  shows "users_file w' = users_file w @ [u]"
    and "user_id u \<notin> user_id ` set (users_file w)"
    and "username u \<notin> username ` set (users_file w)"
    and "email u = mail"
proof -
  from assms obtain uid where
    uid: "generate_user_id lib (ids env) w fname lname ctry = Some uid"
    by (auto simp: create_user_def load_users_def split: option.splits)
  have keep: "map (\<lambda>r. (users_file w @ [x]) ! r) [0..<length (users_file w)] = users_file w" for x
    by (intro nth_equalityI) (simp_all add: nth_append)
  from assms uid have u: "u = \<lparr>user_id = uid,
        username = generate_username lib w fname lname ctry org, first_name = fname,
        last_name = lname, email = mail, country = ctry, organization = org,
        role = rl, password_hash = hash_password lib (salt env) password,
        created_at = isoformat lib (created_now env) @ ''Z'',
        failed_logins = 0, locked_until = None\<rparr>"
    and w': "users_file w' = users_file w @ [u]"
    by (auto simp: create_user_def load_users_def save_users_def append_log_def Let_def keep)
  show "users_file w' = users_file w @ [u]" by (rule w')
  from u generate_user_id_fresh [OF uid] show "user_id u \<notin> user_id ` set (users_file w)" by simp
  from u generate_username_fresh show "username u \<notin> username ` set (users_file w)" by simp
  from u show "email u = mail" by simp
qed

lemma find_user_by_email_None:
  "find_user_by_email lib w mail = None \<longleftrightarrow>
     str_lower lib mail \<notin> (\<lambda>u. str_lower lib (email u)) ` set (users_file w)"
proof -
  have "find_user_by_email lib w mail = None \<longleftrightarrow>
      \<not> (\<exists>u. u \<in> set (users_file w) \<and> str_lower lib (email u) = str_lower lib mail)"
    by (simp add: find_user_by_email_def find_None_iff)
  also have "\<dots> \<longleftrightarrow> str_lower lib mail \<notin> (\<lambda>u. str_lower lib (email u)) ` set (users_file w)"
    by (simp add: image_iff) metis
  finally show ?thesis .
qed

section \<open>The objects of one request\<close>

text \<open>
  The references \<open>find_user_by_username\<close> returns lie above those of the list that
  \<open>authenticate\<close> loaded first, so an update through them leaves that list as it was.
\<close>

lemma loaded_refs:
  "map (\<lambda>r. (h0 @ us) ! r) [length h0 ..< length h0 + length us] = us"
  by (intro nth_equalityI) (simp_all add: nth_append)

lemma find_map_option: "find P (map f xs) = map_option f (find (\<lambda>x. P (f x)) xs)"
  by (induction xs) simp_all

lemma find_loaded:
  "case find P us of
     None \<Rightarrow> find (\<lambda>r. P ((h0 @ us) ! r)) [length h0 ..< length h0 + length us] = None
   | Some usr \<Rightarrow> (\<exists>u. find (\<lambda>r. P ((h0 @ us) ! r)) [length h0 ..< length h0 + length us] = Some u
        \<and> length h0 \<le> u \<and> u < length h0 + length us \<and> (h0 @ us) ! u = usr)"
proof -
  let ?refs = "[length h0 ..< length h0 + length us]"
  let ?Q = "\<lambda>r. P ((h0 @ us) ! r)"
  have "find P (map (\<lambda>r. (h0 @ us) ! r) ?refs) = map_option (\<lambda>r. (h0 @ us) ! r) (find ?Q ?refs)"
    by (rule find_map_option)
  then have eq: "find P us = map_option (\<lambda>r. (h0 @ us) ! r) (find ?Q ?refs)"
    by (simp only: loaded_refs)
  show ?thesis
  proof (cases "find ?Q ?refs")
    case None
    with eq show ?thesis by simp
  next
    case (Some u)
    then have "u \<in> set ?refs"
      by (auto simp: find_Some_iff)
    then have "length h0 \<le> u" "u < length h0 + length us" by simp_all
    with eq Some show ?thesis by simp
  qed
qed

lemma find_user_by_username_None:
  assumes "find (\<lambda>u. username u = uname) (users_file w) = None"
  shows "find_user_by_username w uname h = (None, h @ users_file w)"
  using find_loaded [where P = "\<lambda>u. username u = uname" and us = "users_file w" and ?h0.0 = h] assms
  by (simp add: find_user_by_username_def load_users_def)

lemma find_user_by_username_Some:
  assumes "find (\<lambda>u. username u = uname) (users_file w) = Some usr"
  shows "\<exists>u. find_user_by_username w uname h = (Some u, h @ users_file w) \<and>
           length h \<le> u \<and> u < length h + length (users_file w) \<and> (h @ users_file w) ! u = usr"
  using find_loaded [where P = "\<lambda>u. username u = uname" and us = "users_file w" and ?h0.0 = h] assms
  by (simp add: find_user_by_username_def load_users_def)

lemma store_kept:
  assumes "length us \<le> u"
  shows "map (\<lambda>r. ((us @ vs)[u := x]) ! r) [0..<length us] = us"
  using assms by (intro nth_equalityI) (simp_all add: nth_append)

text \<open>
  \<open>authenticate\<close> in terms of the stored record it finds. No branch changes the user
  store: the updates go to an object of the second load, and \<open>save_users\<close> writes the first.
\<close>

lemma authenticate_unknown:
  assumes "find (\<lambda>u. username u = uname) (users_file w) = None"
  shows "authenticate lib env uname password remote_ip w =
           (Inr (False, ''Invalid credentials.''),
            append_log (LoginFailedNoUser (isoformat lib (now_entry env) @ ''Z'') uname remote_ip) w)"
  using find_user_by_username_None [OF assms, of "users_file w"]
  by (simp add: authenticate_def load_users_def)

lemma authenticate_known:
  assumes "find (\<lambda>u. username u = uname) (users_file w) = Some usr"
  shows "authenticate lib env uname password remote_ip w =
    (let now = isoformat lib (now_entry env) @ ''Z'' in
     case check_lockout lib env (locked_until usr) of
       Inl e \<Rightarrow> (Inl e, w)
     | Inr (Some s) \<Rightarrow>
         (Inr (False, ''Account locked until '' @ s @ '' UTC.''),
          append_log (LoginBlocked now (user_id usr) remote_ip) w)
     | Inr None \<Rightarrow>
        (case check_password lib password (password_hash usr) of
           None \<Rightarrow> (Inl ValueError, w)
         | Some True \<Rightarrow>
             (Inr (True, ''Authenticated''),
              append_log (LoginSuccess now (user_id usr) (username usr) remote_ip)
                (w\<lparr>session := (session w)(''username'' \<mapsto> username usr,
                     ''role'' \<mapsto> role usr, ''user_id'' \<mapsto> user_id usr)\<rparr>))
         | Some False \<Rightarrow>
             if failed_logins usr + 1 \<ge> MAX_FAILED_LOGIN
             then (Inr (False, ''Too many failed attempts. Account locked until '' @
                      (isoformat lib (naive_timestamp lib (now_lock env) + LOCKOUT_SECONDS * 1000000) @ ''Z'')
                      @ '' UTC.''),
                   append_log (AccountLocked now (user_id usr) (username usr) remote_ip) w)
             else (Inr (False, ''Invalid credentials.''),
                   append_log (LoginFailed now (user_id usr) (username usr)
                      (failed_logins usr + 1) remote_ip) w)))"
proof -
  from find_user_by_username_Some [OF assms, of "users_file w"]
  obtain u where f: "find_user_by_username w uname (users_file w)
        = (Some u, users_file w @ users_file w)"
    and lo: "length (users_file w) \<le> u"
    and hi: "u < length (users_file w) + length (users_file w)"
    and at: "(users_file w @ users_file w) ! u = usr" by blast
  have keep: "map (\<lambda>r. ((users_file w @ users_file w)[u := x]) ! r) [0..<length (users_file w)]
      = users_file w" for x
    using lo by (rule store_kept)
  have same: "w\<lparr>users_file := users_file w\<rparr> = w" by simp
  show ?thesis
    using hi
    by (simp add: authenticate_def load_users_def f at keep save_users_def append_log_def same
        Let_def split: sum.splits option.splits bool.splits)
qed

lemma authenticate_users_file:
  "users_file (snd (authenticate lib env uname password remote_ip w)) = users_file w"
proof (cases "find (\<lambda>u. username u = uname) (users_file w)")
  case None
  then show ?thesis
    by (simp add: authenticate_unknown append_log_def)
next
  case (Some usr)
  then show ?thesis
    by (simp add: authenticate_known append_log_def Let_def
        split: sum.splits option.splits bool.splits)
qed

lemma find_unlocked_copy:
  "find (\<lambda>u. username u = uname) (users_file (unlocked_copy uname w)) =
     map_option (\<lambda>u. u\<lparr>locked_until := None\<rparr>) (find (\<lambda>u. username u = uname) (users_file w))"
proof -
  let ?g = "\<lambda>u. if username u = uname then u\<lparr>locked_until := None\<rparr> else u"
  have same: "(username (?g u) = uname) = (username u = uname)" for u :: user by simp
  have "find (\<lambda>u. username u = uname) (map ?g (users_file w))
      = map_option ?g (find (\<lambda>u. username u = uname) (users_file w))"
    by (simp only: find_map_option same)
  also have "\<dots> = map_option (\<lambda>u. u\<lparr>locked_until := None\<rparr>) (find (\<lambda>u. username u = uname) (users_file w))"
  proof (cases "find (\<lambda>u. username u = uname) (users_file w)")
    case None
    then show ?thesis by simp
  next
    case (Some x)
    then have "username x = uname" by (auto simp: find_Some_iff)
    with Some show ?thesis by simp
  qed
  finally show ?thesis by (simp add: unlocked_copy_def)
qed

section \<open>Runs on the concrete inputs\<close>

lemmas run_simps = checksum_id_def fallback_id_def id_core_def USER_ID_PREFIX_def zfill_def
  ord_sum_def str_nat.simps digit_char_def Let_def

lemmas fixture_defs = ada_def stored_user_def store_of_def env_at_def

lemma ascii_lib_sel:
  "checkpw ascii_lib = (\<lambda>plain hashed.
        if take 4 hashed = ''$2b$'' then Some (drop 4 hashed = plain) else None)"
  "fromisoformat ascii_lib = (\<lambda>s.
        if s = ''2025-07-15T09:00:00+00:00'' then Some (Aware at_0900)
        else map_option Naive (map_of (map (\<lambda>(t, s). (s, t)) iso_table) s))"
  "isoformat ascii_lib = (\<lambda>t. case map_of iso_table t of Some s \<Rightarrow> s | None \<Rightarrow> [])"
  "naive_timestamp ascii_lib = (\<lambda>t. t)"
  by (simp_all add: ascii_lib_def)

lemmas eval_simps = check_lockout_def check_password_def ascii_lib_sel fixture_defs
  MAX_FAILED_LOGIN_def LOCKOUT_SECONDS_def append_log_def iso_table_def
  at_0900_def at_1000_def at_1001_def at_1015_def

lemma initials_AB: "str_upper ascii_lib ''AB'' = ''AB''"
  by (simp add: ascii_lib_def ascii_upper_def)

lemma checksum_id_repeat: "checksum_id env_repeat ''AB'' k = ''MINN250715AB482987''"
  by (simp add: run_simps env_repeat_def)

lemma fallback_id_repeat: "fallback_id env_repeat ''AB'' k = ''MINN250715AB48297890''"
  by (simp add: run_simps env_repeat_def)

lemma checksum_id_clock: "checksum_id env_clock ''AB'' k = ''MINN250715AB482987''"
  by (simp add: run_simps env_clock_def)

lemma known_ada:
  "find (\<lambda>u. username u = ''ada.byron.sou.min'') (users_file (store_of [ada n l])) = Some (ada n l)"
  by (simp add: fixture_defs)

lemma create_two:
  "\<exists>u1 u2 w'. create_users ascii_lib
            [creation_of 4829 ''Jane'' ''Doe'' m1, creation_of 1234 ''John'' ''Roe'' m2] (store_of [])
              = Some w'
          \<and> users_file w' = [u1, u2] \<and> email u1 = m1 \<and> email u2 = m2"
proof -
  let ?c1 = "creation_of 4829 ''Jane'' ''Doe'' m1"
  let ?c2 = "creation_of 1234 ''John'' ''Roe'' m2"
  have up: "str_upper ascii_lib ''JD'' = ''JD''" "str_upper ascii_lib ''JR'' = ''JR''"
    by (simp_all add: ascii_lib_def ascii_upper_def)
  have id1: "generate_user_id ascii_lib (ids (c_env ?c1)) (store_of []) ''Jane'' ''Doe'' ''SouthAfrica''
      = Some ''MINN250715JD482901''"
    by (subst generate_user_id_first_try)
      (simp_all add: id_taken_def store_of_def up creation_of_def run_simps)
  from create_user_returns [OF id1] obtain u1 w1 where
    s1: "create_user ascii_lib (c_env ?c1) ''Jane'' ''Doe'' m1 ''SouthAfrica'' ''MINN''
           ''Researcher'' ''Secret1!'' (store_of []) = Some (u1, w1)"
    and uid1: "user_id u1 = ''MINN250715JD482901''" by blast
  note r1 = create_user_result [OF s1]
  from r1(1) have f1: "users_file w1 = [u1]" by (simp add: store_of_def)
  have id2: "generate_user_id ascii_lib (ids (c_env ?c2)) w1 ''John'' ''Roe'' ''SouthAfrica''
      = Some ''MINN250715JR123402''"
    by (subst generate_user_id_first_try)
      (simp_all add: id_taken_def f1 uid1 up creation_of_def run_simps)
  from create_user_returns [OF id2] obtain u2 w2 where
    s2: "create_user ascii_lib (c_env ?c2) ''John'' ''Roe'' m2 ''SouthAfrica'' ''MINN''
           ''Researcher'' ''Secret1!'' w1 = Some (u2, w2)" by blast
  note r2 = create_user_result [OF s2]
  have sel: "c_first ?c1 = ''Jane''" "c_last ?c1 = ''Doe''" "c_email ?c1 = m1"
    "c_first ?c2 = ''John''" "c_last ?c2 = ''Roe''" "c_email ?c2 = m2"
    "c_country ?c1 = ''SouthAfrica''" "c_org ?c1 = ''MINN''" "c_role ?c1 = ''Researcher''"
    "c_password ?c1 = ''Secret1!''"
    "c_country ?c2 = ''SouthAfrica''" "c_org ?c2 = ''MINN''" "c_role ?c2 = ''Researcher''"
    "c_password ?c2 = ''Secret1!''"
    by (simp_all add: creation_of_def)
  have "create_users ascii_lib [?c1, ?c2] (store_of []) = Some w2"
    by (simp add: sel s1 s2)
  moreover from r1 r2 f1 have "users_file w2 = [u1, u2]" "email u1 = m1" "email u2 = m2"
    by simp_all
  ultimately show ?thesis by blast
qed

section \<open>Claims\<close>

subsection \<open>C1: the checksum suffix of generated user ids\<close>

text \<open>
  C1, as amended. Every identifier \<open>generate_user_id\<close> returns either ends in the two-digit,
  zero-padded checksum (the character codes of the preceding string summed, modulo 97), or
  it is a fallback identifier, built in an iteration after 50 collisions as the core
  followed by the unix time modulo 10000.
\<close>

theorem generate_user_id_checksum:
  assumes "generate_user_id lib env w fname lname ctry = Some uid"
  shows "has_checksum uid \<or>
         (\<exists>k\<ge>50. uid = fallback_id env (str_upper lib (take 1 fname @ take 1 lname)) k)"
  using user_id_loop_result [of env "users_file w" "str_upper lib (take 1 fname @ take 1 lname)" 0 uid] assms
  by (auto simp: generate_user_id_def has_checksum_checksum_id)

theorem generate_user_id_checksum_witness:
  "generate_user_id ascii_lib env_repeat (store_of []) ''Ada'' ''Byron'' ''SouthAfrica''
     = Some ''MINN250715AB482987'' \<and> has_checksum ''MINN250715AB482987''"
proof -
  have run: "generate_user_id ascii_lib env_repeat (store_of []) ''Ada'' ''Byron'' ''SouthAfrica''
      = Some ''MINN250715AB482987''"
    by (subst generate_user_id_first_try)
      (simp_all add: id_taken_def store_of_def initials_AB checksum_id_repeat)
  have "''MINN250715AB482987'' \<noteq> fallback_id env_repeat (str_upper ascii_lib (take 1 ''Ada'' @ take 1 ''Byron'')) k"
    for k by (simp add: initials_AB fallback_id_repeat)
  with generate_user_id_checksum [OF run] have "has_checksum ''MINN250715AB482987''" by blast
  with run show ?thesis by simp
qed

text \<open>
  C1 as stated fails on the fallback branch: with one stored identifier and 51 equal draws
  the function returns the core followed by 7890, whose last two characters are not the
  checksum of what precedes them.
\<close>

theorem generate_user_id_fallback_no_checksum:
  "generate_user_id ascii_lib env_repeat w_taken ''Ada'' ''Byron'' ''SouthAfrica''
     = Some ''MINN250715AB48297890'' \<and>
   \<not> has_checksum ''MINN250715AB48297890''"
proof
  let ?users = "users_file w_taken"
  have taken: "id_taken ?users (checksum_id env_repeat ''AB'' k)" for k
    by (simp add: checksum_id_repeat id_taken_def w_taken_def store_of_def stored_user_def)
  have free: "\<not> id_taken ?users (fallback_id env_repeat ''AB'' 50)"
    by (simp add: fallback_id_repeat id_taken_def w_taken_def store_of_def stored_user_def)
  from user_id_loop_returns [of 0 ?users env_repeat "''AB''"] free
  obtain uid where r: "user_id_loop env_repeat ?users ''AB'' 0 = Some uid"
    and s: "(\<exists>k. 0 \<le> k \<and> k \<le> 50 \<and> uid = checksum_id env_repeat ''AB'' k) \<or>
            uid = fallback_id env_repeat ''AB'' 50" by blast
  from user_id_loop_result [OF r] have "\<not> id_taken ?users uid" by simp
  with s taken have "uid = fallback_id env_repeat ''AB'' 50" by blast
  with r show "generate_user_id ascii_lib env_repeat w_taken ''Ada'' ''Byron'' ''SouthAfrica''
     = Some ''MINN250715AB48297890''"
    by (simp add: generate_user_id_def initials_AB fallback_id_repeat)
  show "\<not> has_checksum ''MINN250715AB48297890''"
    by (simp add: has_checksum_def zfill_def ord_sum_def str_nat.simps digit_char_def)
qed

subsection \<open>C2: the wrong password that reaches the threshold\<close>

text \<open>
  C2 on the code. A stored record with four failed logins and a wrong password: the call
  reports the lock and logs \<open>account_locked\<close>, but the store it saves is the one it loaded,
  with the counter still at four and no lock, and the next call with the right password,
  long before the reported unlock time, succeeds.
\<close>

theorem authenticate_lock_not_persisted:
  "authenticate ascii_lib (env_at at_1000) ''ada.byron.sou.min'' ''wrong'' None (store_of [ada 4 None])
     = (Inr (False, ''Too many failed attempts. Account locked until 2025-07-15T10:15:00Z UTC.''),
        \<lparr>users_file = [ada 4 None],
         logs_file = [AccountLocked ''2025-07-15T10:00:00Z'' ''MINN250715AB482987'' ''ada.byron.sou.min'' None],
         session = Map.empty\<rparr>)
   \<and> fst (authenticate ascii_lib (env_at at_1001) ''ada.byron.sou.min'' ''Secret1!'' None
           (snd (authenticate ascii_lib (env_at at_1000) ''ada.byron.sou.min'' ''wrong'' None
                   (store_of [ada 4 None]))))
     = Inr (True, ''Authenticated'')"
proof -
  have first: "authenticate ascii_lib (env_at at_1000) ''ada.byron.sou.min'' ''wrong'' None (store_of [ada 4 None])
     = (Inr (False, ''Too many failed attempts. Account locked until 2025-07-15T10:15:00Z UTC.''),
        (store_of [ada 4 None])\<lparr>logs_file := [AccountLocked ''2025-07-15T10:00:00Z'' ''MINN250715AB482987'' ''ada.byron.sou.min'' None]\<rparr>)"
    by (subst authenticate_known [OF known_ada]) (simp add: eval_simps)
  have k: "find (\<lambda>u. username u = ''ada.byron.sou.min'')
      (users_file ((store_of [ada 4 None])\<lparr>logs_file := [AccountLocked ''2025-07-15T10:00:00Z'' ''MINN250715AB482987'' ''ada.byron.sou.min'' None]\<rparr>))
      = Some (ada 4 None)"
    by (simp add: fixture_defs)
  show ?thesis
    unfolding first snd_conv
    by (subst authenticate_known [OF k]) (simp add: eval_simps)
qed

subsection \<open>C3: the successful login\<close>

text \<open>
  C3 on the code. A stored record with two failed logins and the right password: the call
  succeeds, fills the session and logs \<open>login_success\<close>, and the saved record still has two
  failed logins.
\<close>

theorem authenticate_reset_not_persisted:
  "authenticate ascii_lib (env_at at_1000) ''ada.byron.sou.min'' ''Secret1!'' None (store_of [ada 2 None])
     = (Inr (True, ''Authenticated''),
        \<lparr>users_file = [ada 2 None],
         logs_file = [LoginSuccess ''2025-07-15T10:00:00Z'' ''MINN250715AB482987'' ''ada.byron.sou.min'' None],
         session = [''username'' \<mapsto> ''ada.byron.sou.min'', ''role'' \<mapsto> ''Researcher'',
                    ''user_id'' \<mapsto> ''MINN250715AB482987'']\<rparr>)"
  by (subst authenticate_known [OF known_ada]) (simp add: eval_simps)

text \<open>
  \<open>unlock_account\<close> and \<open>reset_password\<close> change the objects of the list they save, so
  their resets arrive in the store.
\<close>

lemma unlock_account_persisted:
  "unlock_account ascii_lib at_1000 ''MINN250715AB482987'' (store_of [ada 5 (Some ''2025-07-15T10:15:00Z'')])
     = (True,
        \<lparr>users_file = [ada 0 None],
         logs_file = [AccountUnlocked ''2025-07-15T10:00:00Z'' ''MINN250715AB482987''],
         session = Map.empty\<rparr>)"
  by (simp add: unlock_account_def load_users_def save_users_def eval_simps)

lemma reset_password_persisted:
  "map (\<lambda>u. (failed_logins u, locked_until u))
     (users_file (snd (reset_password ascii_lib ''salt'' at_1000 ''Ada@Example.com'' ''Secret1!''
        (store_of [ada 5 (Some ''2025-07-15T10:15:00Z'')]))))
     = [(0, None)]"
  by (simp add: reset_password_def load_users_def save_users_def eval_simps ascii_lib_def
      ascii_lower_def hash_password_def)

subsection \<open>C4: the locked account\<close>

text \<open>
  C4. For a known user whose \<open>locked_until\<close> parses to a time after the clock reading,
  \<open>authenticate\<close> fails with a message that contains the stored timestamp and appends one
  \<open>login_blocked\<close> entry; the user store and the session are as before, whatever the
  password.
\<close>

theorem authenticate_locked:
  assumes "find (\<lambda>u. username u = uname) (users_file w) = Some usr"
    and "locked_until usr = Some s" and "s \<noteq> []"
    and "fromisoformat lib (filter (\<lambda>c. c \<noteq> CHR ''Z'') s) = Some (Naive locked_ts)"
    and "locked_ts > now_check env"
  shows "authenticate lib env uname password remote_ip w =
           (Inr (False, ''Account locked until '' @ s @ '' UTC.''),
            w\<lparr>logs_file := logs_file w @
               [LoginBlocked (isoformat lib (now_entry env) @ ''Z'') (user_id usr) remote_ip]\<rparr>)
         \<and> users_file (snd (authenticate lib env uname password remote_ip w)) = users_file w"
  using assms
  by (simp add: authenticate_known [OF assms(1)] check_lockout_def append_log_def)

theorem authenticate_locked_witness:
  "authenticate ascii_lib (env_at at_1000) ''ada.byron.sou.min'' ''Secret1!'' None
      (store_of [ada 5 (Some ''2025-07-15T10:15:00Z'')]) =
     (Inr (False, ''Account locked until 2025-07-15T10:15:00Z UTC.''),
      (store_of [ada 5 (Some ''2025-07-15T10:15:00Z'')])
        \<lparr>logs_file := [LoginBlocked ''2025-07-15T10:00:00Z'' ''MINN250715AB482987'' None]\<rparr>)"
  using authenticate_locked [of "''ada.byron.sou.min''" "store_of [ada 5 (Some ''2025-07-15T10:15:00Z'')]"
      "ada 5 (Some ''2025-07-15T10:15:00Z'')" "''2025-07-15T10:15:00Z''" ascii_lib at_1015 "env_at at_1000"
      "''Secret1!''" None]
  by (simp add: eval_simps)

subsection \<open>C5: uniqueness after creations\<close>

text \<open>
  C5, as amended. After any sequence of \<open>create_user\<close> calls that starts from a store with
  unique user ids and usernames, both are still unique; emails are still unique, compared
  case-insensitively, when they were unique at the start and every call was made with an
  address that \<open>find_user_by_email\<close> did not find.
\<close>

theorem create_users_unique:
  assumes "unique_ids w" and "unique_usernames w" and "create_users lib cs w = Some w'"
  shows "unique_ids w' \<and> unique_usernames w' \<and>
         (unique_emails lib w \<and> emails_checked lib cs w \<longrightarrow> unique_emails lib w')"
  using assms
proof (induction cs arbitrary: w)
  case Nil
  then show ?case by simp
next
  case (Cons c cs)
  from Cons.prems(3) obtain u w1 where
    step: "create_user lib (c_env c) (c_first c) (c_last c) (c_email c) (c_country c) (c_org c)
             (c_role c) (c_password c) w = Some (u, w1)"
    and rest: "create_users lib cs w1 = Some w'"
    by (auto split: option.splits)
  note r = create_user_result [OF step]
  from Cons.prems(1) r(1,2) have ids: "unique_ids w1" by (simp add: unique_ids_def)
  from Cons.prems(2) r(1,3) have names: "unique_usernames w1" by (simp add: unique_usernames_def)
  have mails: "unique_emails lib w1" if "unique_emails lib w" "emails_checked lib (c # cs) w"
    using that r(1,4) step by (simp add: unique_emails_def find_user_by_email_None)
  have checked: "emails_checked lib cs w1" if "emails_checked lib (c # cs) w"
    using that step by simp
  from Cons.IH [OF ids names rest] mails checked show ?case by blast
qed

theorem create_users_unique_witness:
  "map_option (\<lambda>w. unique_ids w \<and> unique_usernames w \<and> unique_emails ascii_lib w)
     (create_users ascii_lib
        [creation_of 4829 ''Jane'' ''Doe'' ''jane@x.com'',
         creation_of 1234 ''John'' ''Roe'' ''john@x.com''] (store_of []))
   = Some True"
proof -
  let ?cs = "[creation_of 4829 ''Jane'' ''Doe'' ''jane@x.com'',
         creation_of 1234 ''John'' ''Roe'' ''john@x.com'']"
  from create_two [of "''jane@x.com''" "''john@x.com''"] obtain u1 u2 w' where
    run: "create_users ascii_lib ?cs (store_of []) = Some w'"
    and us: "users_file w' = [u1, u2]" "email u1 = ''jane@x.com''" "email u2 = ''john@x.com''"
    by blast
  have start: "unique_ids (store_of [])" "unique_usernames (store_of [])"
    "unique_emails ascii_lib (store_of [])"
    by (simp_all add: unique_ids_def unique_usernames_def unique_emails_def store_of_def)
  have checked: "emails_checked ascii_lib ?cs (store_of [])"
  proof -
    from run obtain v w1 where
      s1: "create_user ascii_lib (c_env (creation_of 4829 ''Jane'' ''Doe'' ''jane@x.com''))
            (c_first (creation_of 4829 ''Jane'' ''Doe'' ''jane@x.com''))
            (c_last (creation_of 4829 ''Jane'' ''Doe'' ''jane@x.com''))
            (c_email (creation_of 4829 ''Jane'' ''Doe'' ''jane@x.com''))
            (c_country (creation_of 4829 ''Jane'' ''Doe'' ''jane@x.com''))
            (c_org (creation_of 4829 ''Jane'' ''Doe'' ''jane@x.com''))
            (c_role (creation_of 4829 ''Jane'' ''Doe'' ''jane@x.com''))
            (c_password (creation_of 4829 ''Jane'' ''Doe'' ''jane@x.com'')) (store_of []) = Some (v, w1)"
      by (auto split: option.splits)
    note r1 = create_user_result [OF s1]
    from r1(1,4) have f1: "users_file w1 = [v]" "email v = ''jane@x.com''"
      by (simp_all add: store_of_def creation_of_def)
    have "find_user_by_email ascii_lib (store_of []) ''jane@x.com'' = None"
      by (simp add: find_user_by_email_def store_of_def)
    moreover have "find_user_by_email ascii_lib w1 ''john@x.com'' = None"
      by (simp add: find_user_by_email_def f1 ascii_lib_def ascii_lower_def)
    moreover have e: "c_email (creation_of 4829 ''Jane'' ''Doe'' ''jane@x.com'') = ''jane@x.com''"
      "c_email (creation_of 1234 ''John'' ''Roe'' ''john@x.com'') = ''john@x.com''"
      by (simp_all add: creation_of_def)
    ultimately show ?thesis
      using s1 by (simp add: e split: option.splits)
  qed
  from create_users_unique [OF start(1,2) run] start(3) checked run
  show ?thesis by simp
qed

text \<open>
  C5 as stated fails for emails: \<open>create_user\<close> does not look at the stored addresses, and
  two calls with the same address from the empty store leave two records that share it.
\<close>

theorem create_user_duplicate_email:
  "unique_ids (store_of []) \<and> unique_usernames (store_of []) \<and> unique_emails ascii_lib (store_of [])
   \<and> map_option (\<lambda>w. map email (users_file w))
        (create_users ascii_lib
           [creation_of 4829 ''Jane'' ''Doe'' ''jane@x.com'',
            creation_of 1234 ''John'' ''Roe'' ''jane@x.com''] (store_of []))
       = Some [''jane@x.com'', ''jane@x.com'']
   \<and> map_option (unique_emails ascii_lib)
        (create_users ascii_lib
           [creation_of 4829 ''Jane'' ''Doe'' ''jane@x.com'',
            creation_of 1234 ''John'' ''Roe'' ''jane@x.com''] (store_of []))
       = Some False"
proof -
  from create_two [of "''jane@x.com''" "''jane@x.com''"] obtain u1 u2 w' where
    "create_users ascii_lib
           [creation_of 4829 ''Jane'' ''Doe'' ''jane@x.com'',
            creation_of 1234 ''John'' ''Roe'' ''jane@x.com''] (store_of []) = Some w'"
    "users_file w' = [u1, u2]" "email u1 = ''jane@x.com''" "email u2 = ''jane@x.com''"
    by blast
  then show ?thesis
    by (simp add: unique_ids_def unique_usernames_def unique_emails_def store_of_def)
qed

subsection \<open>C6: reset tokens\<close>

text \<open>
  C6. A token from \<open>generate_reset_token\<close> verifies to its email as long as the time elapsed
  since it was issued is at most the limit (3600 seconds by default) and to nothing once it is older; a token whose
  signature does not match verifies to nothing as well. The serializer tells the two
  failures apart, the value returned does not.
\<close>

theorem verify_reset_token_roundtrip:
  "(t0 \<le> now \<and> now - t0 \<le> age_limit max_age \<longrightarrow>
      verify_reset_token lib secret now (generate_reset_token lib secret t0 mail) max_age = Some mail)
   \<and> (now - t0 > age_limit max_age \<longrightarrow>
      verify_reset_token lib secret now (generate_reset_token lib secret t0 mail) max_age = None
      \<and> loads lib secret now (generate_reset_token lib secret t0 mail) PASSWORD_RESET_SALT
            (age_limit max_age) = SignatureExpired)
   \<and> (signature tok \<noteq> mac lib secret PASSWORD_RESET_SALT (payload tok) (issued tok) \<longrightarrow>
      verify_reset_token lib secret now tok max_age = None
      \<and> loads lib secret now tok PASSWORD_RESET_SALT (age_limit max_age) = BadSignature)
   \<and> age_limit None = 3600"
  by (simp add: verify_reset_token_def generate_reset_token_def dumps_def loads_def age_limit_def
      PASSWORD_RESET_EXP_SECONDS_def split: option.splits)

theorem verify_reset_token_roundtrip_witness:
  "verify_reset_token ascii_lib ''key'' 4600 (generate_reset_token ascii_lib ''key'' 1000 ''ada@example.com'') None
     = Some ''ada@example.com''
   \<and> verify_reset_token ascii_lib ''key'' 4601 (generate_reset_token ascii_lib ''key'' 1000 ''ada@example.com'') None
     = None
   \<and> verify_reset_token ascii_lib ''key'' 1001
        ((generate_reset_token ascii_lib ''key'' 1000 ''ada@example.com'')\<lparr>payload := ''eve@example.com''\<rparr>) None
     = None"
proof -
  let ?tok = "generate_reset_token ascii_lib ''key'' 1000 ''ada@example.com''"
  let ?bad = "?tok\<lparr>payload := ''eve@example.com''\<rparr>"
  have limit: "age_limit None = 3600"
    by (simp add: age_limit_def PASSWORD_RESET_EXP_SECONDS_def)
  have forged: "signature ?bad \<noteq> mac ascii_lib ''key'' PASSWORD_RESET_SALT (payload ?bad) (issued ?bad)"
    by (simp add: generate_reset_token_def dumps_def ascii_lib_def)
  from verify_reset_token_roundtrip [where ?t0.0 = 1000 and now = 4600 and max_age = None
      and lib = ascii_lib and secret = "''key''" and mail = "''ada@example.com''" and tok = ?bad]
  have a: "verify_reset_token ascii_lib ''key'' 4600 ?tok None = Some ''ada@example.com''"
    by (simp add: limit)
  from verify_reset_token_roundtrip [where ?t0.0 = 1000 and now = 4601 and max_age = None
      and lib = ascii_lib and secret = "''key''" and mail = "''ada@example.com''" and tok = ?bad]
  have b: "verify_reset_token ascii_lib ''key'' 4601 ?tok None = None"
    by (simp add: limit)
  from verify_reset_token_roundtrip [where ?t0.0 = 1000 and now = 1001 and max_age = None
      and lib = ascii_lib and secret = "''key''" and mail = "''ada@example.com''" and tok = ?bad]
    forged
  have c: "verify_reset_token ascii_lib ''key'' 1001 ?bad None = None"
    by blast
  from a b c show ?thesis by blast
qed

subsection \<open>C7: termination of user id generation\<close>

text \<open>
  C7, as amended. \<open>generate_user_id\<close> returns within its first 51 draws, the first attempt
  and 50 retries, whenever one of their checksum identifiers or the fallback identifier of
  the 51st iteration is not a stored user id; what it returns is one of those.
\<close>

theorem generate_user_id_bounded:
  assumes "(\<exists>k\<le>50. \<not> id_taken (users_file w)
               (checksum_id env (str_upper lib (take 1 fname @ take 1 lname)) k)) \<or>
           \<not> id_taken (users_file w)
               (fallback_id env (str_upper lib (take 1 fname @ take 1 lname)) 50)"
  shows "\<exists>uid. generate_user_id lib env w fname lname ctry = Some uid \<and>
           ((\<exists>k\<le>50. uid = checksum_id env (str_upper lib (take 1 fname @ take 1 lname)) k) \<or>
            uid = fallback_id env (str_upper lib (take 1 fname @ take 1 lname)) 50)"
proof -
  let ?ini = "str_upper lib (take 1 fname @ take 1 lname)"
  from assms have "(\<exists>k. 0 \<le> k \<and> k \<le> 50 \<and> \<not> id_taken (users_file w) (checksum_id env ?ini k)) \<or>
      \<not> id_taken (users_file w) (fallback_id env ?ini 50)" by simp
  from user_id_loop_returns [OF _ this] obtain uid where
    "user_id_loop env (users_file w) ?ini 0 = Some uid"
    "(\<exists>k. 0 \<le> k \<and> k \<le> 50 \<and> uid = checksum_id env ?ini k) \<or> uid = fallback_id env ?ini 50"
    by auto
  then show ?thesis
    by (simp add: generate_user_id_def)
qed

theorem generate_user_id_bounded_witness:
  "\<not> id_taken (users_file w_taken) (fallback_id env_repeat ''AB'' 50) \<and>
   (\<exists>uid. generate_user_id ascii_lib env_repeat w_taken ''Ada'' ''Byron'' ''SouthAfrica'' = Some uid \<and>
      ((\<exists>k\<le>50. uid = checksum_id env_repeat ''AB'' k) \<or> uid = fallback_id env_repeat ''AB'' 50))"
proof -
  have free: "\<not> id_taken (users_file w_taken) (fallback_id env_repeat ''AB'' 50)"
    by (simp add: fallback_id_repeat id_taken_def w_taken_def store_of_def stored_user_def)
  have ini: "str_upper ascii_lib (take 1 ''Ada'' @ take 1 ''Byron'') = ''AB''"
    by (simp add: initials_AB)
  from free have "(\<exists>k\<le>50. \<not> id_taken (users_file w_taken)
               (checksum_id env_repeat (str_upper ascii_lib (take 1 ''Ada'' @ take 1 ''Byron'')) k)) \<or>
           \<not> id_taken (users_file w_taken)
               (fallback_id env_repeat (str_upper ascii_lib (take 1 ''Ada'' @ take 1 ''Byron'')) 50)"
    by (simp only: ini) simp
  from generate_user_id_bounded [OF this, of "''SouthAfrica''"] free show ?thesis
    by (simp only: ini) simp
qed

text \<open>
  C7 as stated fails: when every checksum identifier drawn and every fallback identifier is
  stored already, the loop has no exit. With the store \<open>w_full\<close> this is so for every clock
  reading, and the call never returns.
\<close>

theorem generate_user_id_never_returns:
  "generate_user_id ascii_lib env_clock w_full ''Ada'' ''Byron'' ''SouthAfrica'' = None"
proof -
  let ?users = "users_file w_full"
  have taken: "id_taken ?users (checksum_id env_clock ''AB'' k)" for k
    by (simp add: checksum_id_clock id_taken_def w_full_def store_of_def stored_user_def)
  have fb: "id_taken ?users (fallback_id env_clock ''AB'' k)" for k
  proof -
    let ?t = "(1752577890 + k) mod 10000"
    have "?t \<in> set [0..<10000]" by simp
    then have "''MINN250715AB4829'' @ str_nat ?t
        \<in> (\<lambda>t. ''MINN250715AB4829'' @ str_nat t) ` set [0..<10000]"
      by (rule imageI)
    moreover have "fallback_id env_clock ''AB'' k = ''MINN250715AB4829'' @ str_nat ?t"
      by (simp add: fallback_id_def id_core_def USER_ID_PREFIX_def zfill_def env_clock_def
          str_nat.simps [of 4829] str_nat.simps [of 482] str_nat.simps [of 48] str_nat.simps [of 4]
          digit_char_def)
    ultimately show ?thesis
      by (simp add: id_taken_iff w_full_def store_of_def stored_user_def image_image)
  qed
  from user_id_loop_diverges [of ?users env_clock "''AB''" 0, OF taken fb]
  show ?thesis
    by (simp add: generate_user_id_def initials_AB)
qed

subsection \<open>C8: telling an unknown user from a wrong password\<close>

text \<open>
  C8 on the code. \<open>authenticate\<close> calls \<open>check_password\<close> only for a known user and does
  not catch what it raises. With a password on which \<open>bcrypt.checkpw\<close> raises, here one of
  73 characters, an unknown username gets the message \<open>Invalid credentials.\<close> and a known
  one, not locked and with no failed login so far, gets the \<open>ValueError\<close>: the two causes
  can be told apart.
\<close>

theorem authenticate_error_reveals_user:
  "fst (authenticate bcrypt72_lib (env_at at_1000) ''nobody'' long_password None
          (store_of [ada 0 None]))
     = Inr (False, ''Invalid credentials.'')
   \<and> fst (authenticate bcrypt72_lib (env_at at_1000) ''ada.byron.sou.min'' long_password None
          (store_of [ada 0 None]))
     = Inl ValueError"
proof
  have nobody: "find (\<lambda>u. username u = ''nobody'') (users_file (store_of [ada 0 None])) = None"
    by (simp add: fixture_defs)
  show "fst (authenticate bcrypt72_lib (env_at at_1000) ''nobody'' long_password None
          (store_of [ada 0 None])) = Inr (False, ''Invalid credentials.'')"
    by (simp add: authenticate_unknown [OF nobody])
  have raises: "check_password bcrypt72_lib long_password (password_hash (ada 0 None)) = None"
    by (simp add: check_password_def bcrypt72_lib_def long_password_def)
  have active: "check_lockout bcrypt72_lib (env_at at_1000) (locked_until (ada 0 None)) = Inr None"
    by (simp add: check_lockout_def fixture_defs)
  show "fst (authenticate bcrypt72_lib (env_at at_1000) ''ada.byron.sou.min'' long_password None
          (store_of [ada 0 None])) = Inl ValueError"
    by (subst authenticate_known [OF known_ada]) (simp add: raises active)
qed

text \<open>
  Where the password check returns a value, the two messages are the same string: that of
  an unknown username, and that of a known user who is not locked, gives a wrong password
  and stays below the threshold.
\<close>

theorem authenticate_no_enumeration:
  assumes "find (\<lambda>u. username u = unknown) (users_file w) = None"
    and "find (\<lambda>u. username u = known) (users_file w') = Some usr"
    and "check_lockout lib env' (locked_until usr) = Inr None"
    and "check_password lib password' (password_hash usr) = Some False"
    and "failed_logins usr + 1 < MAX_FAILED_LOGIN"
  shows "fst (authenticate lib env unknown password remote_ip w)
           = fst (authenticate lib env' known password' remote_ip' w')
       \<and> fst (authenticate lib env unknown password remote_ip w)
           = Inr (False, ''Invalid credentials.'')"
  using assms(3-5)
  by (simp add: authenticate_unknown [OF assms(1)] authenticate_known [OF assms(2)])

theorem authenticate_no_enumeration_witness:
  "fst (authenticate ascii_lib (env_at at_1000) ''nobody'' ''guess'' None (store_of [ada 0 None]))
     = Inr (False, ''Invalid credentials.'') \<and>
   fst (authenticate ascii_lib (env_at at_1000) ''ada.byron.sou.min'' ''guess'' None (store_of [ada 0 None]))
     = Inr (False, ''Invalid credentials.'')"
proof -
  have nobody: "find (\<lambda>u. username u = ''nobody'') (users_file (store_of [ada 0 None])) = None"
    by (simp add: fixture_defs)
  have active: "check_lockout ascii_lib (env_at at_1000) (locked_until (ada 0 None)) = Inr None"
    by (simp add: eval_simps)
  have wrong: "check_password ascii_lib ''guess'' (password_hash (ada 0 None)) = Some False"
    by (simp add: eval_simps)
  have below: "failed_logins (ada 0 None) + 1 < MAX_FAILED_LOGIN"
    by (simp add: eval_simps)
  from authenticate_no_enumeration [OF nobody known_ada active wrong below,
      of "env_at at_1000" "''guess''" None None]
  show ?thesis by metis
qed

subsection \<open>C9: a lock timestamp that cannot be parsed\<close>

text \<open>
  C9. When the stored \<open>locked_until\<close> of a known user is a string that
  \<open>fromisoformat\<close> rejects, \<open>authenticate\<close> gives the result, the log and the session it
  gives for the same store without that lock; it does not raise \<open>TypeError\<close>, and it raises
  at all only if the password check does.
\<close>

theorem authenticate_unparsable_lock:
  assumes "find (\<lambda>u. username u = uname) (users_file w) = Some usr"
    and "locked_until usr = Some s"
    and "fromisoformat lib (filter (\<lambda>c. c \<noteq> CHR ''Z'') s) = None"
  shows "fst (authenticate lib env uname password remote_ip w)
           = fst (authenticate lib env uname password remote_ip (unlocked_copy uname w))
       \<and> logs_file (snd (authenticate lib env uname password remote_ip w))
           = logs_file (snd (authenticate lib env uname password remote_ip (unlocked_copy uname w)))
       \<and> session (snd (authenticate lib env uname password remote_ip w))
           = session (snd (authenticate lib env uname password remote_ip (unlocked_copy uname w)))
       \<and> fst (authenticate lib env uname password remote_ip w) \<noteq> Inl TypeError
       \<and> ((\<exists>e. fst (authenticate lib env uname password remote_ip w) = Inl e)
            = (check_password lib password (password_hash usr) = None))"
proof -
  have known': "find (\<lambda>u. username u = uname) (users_file (unlocked_copy uname w))
      = Some (usr\<lparr>locked_until := None\<rparr>)"
    by (simp add: find_unlocked_copy assms(1))
  have open_w: "check_lockout lib env (locked_until usr) = Inr None"
    using assms(2,3) by (simp add: check_lockout_def)
  have open_w': "check_lockout lib env None = Inr None"
    by (simp add: check_lockout_def)
  have logs: "logs_file (unlocked_copy uname w) = logs_file w"
    and sess: "session (unlocked_copy uname w) = session w"
    by (simp_all add: unlocked_copy_def)
  show ?thesis
    by (simp add: authenticate_known [OF assms(1)] authenticate_known [OF known'] open_w open_w'
        logs sess append_log_def Let_def split: option.splits bool.splits)
qed

theorem authenticate_unparsable_lock_witness:
  "fst (authenticate ascii_lib (env_at at_1000) ''ada.byron.sou.min'' ''Secret1!'' None
          (store_of [ada 0 (Some ''next week'')])) = Inr (True, ''Authenticated'')
   \<and> fst (authenticate ascii_lib (env_at at_1000) ''ada.byron.sou.min'' ''Secret1!'' None
          (unlocked_copy ''ada.byron.sou.min'' (store_of [ada 0 (Some ''next week'')])))
       = Inr (True, ''Authenticated'')"
proof -
  let ?w = "store_of [ada 0 (Some ''next week'')]"
  have k: "find (\<lambda>u. username u = ''ada.byron.sou.min'') (users_file ?w) = Some (ada 0 (Some ''next week''))"
    by (simp add: fixture_defs)
  have l: "locked_until (ada 0 (Some ''next week'')) = Some ''next week''"
    by (simp add: fixture_defs)
  have p: "fromisoformat ascii_lib (filter (\<lambda>c. c \<noteq> CHR ''Z'') ''next week'') = None"
    by (simp add: ascii_lib_sel iso_table_def)
  have r: "fst (authenticate ascii_lib (env_at at_1000) ''ada.byron.sou.min'' ''Secret1!'' None ?w)
      = Inr (True, ''Authenticated'')"
    by (subst authenticate_known [OF k])
      (simp add: eval_simps)
  from authenticate_unparsable_lock [OF k l p, of "env_at at_1000" "''Secret1!''" None] r
  show ?thesis by simp
qed

subsection \<open>C10: a further wrong password after the lock has expired\<close>

text \<open>
  C10 on the code. A stored record with five failed logins and a lock that has expired, and
  a wrong password: the call reports a new lock, and the saved record keeps the old
  timestamp and the old counter.
\<close>

theorem authenticate_relock_not_persisted:
  "authenticate ascii_lib (env_at at_1000) ''ada.byron.sou.min'' ''wrong'' None
      (store_of [ada 5 (Some ''2025-07-15T09:00:00Z'')])
     = (Inr (False, ''Too many failed attempts. Account locked until 2025-07-15T10:15:00Z UTC.''),
        \<lparr>users_file = [ada 5 (Some ''2025-07-15T09:00:00Z'')],
         logs_file = [AccountLocked ''2025-07-15T10:00:00Z'' ''MINN250715AB482987'' ''ada.byron.sou.min'' None],
         session = Map.empty\<rparr>)"
  by (subst authenticate_known [OF known_ada]) (simp add: eval_simps)

end
